theory Spec2Isabelle
  imports Main
begin

section \<open>Python strings and bytes\<close>

text \<open>
  A Python \<open>str\<close> is modelled by its UTF-8 bytes, so \<open>s.encode("utf-8")\<close> is the
  identity and \<open>bytes\<close> and \<open>str\<close> share the type \<open>string\<close>.  \<open>str.lower\<close> follows the
  case table of Unicode, which is no part of the sources: it is taken from outside
  (\<open>str_lower\<close> below), as a function on the UTF-8 bytes.
\<close>

type_synonym bytes = string

definition CRLF :: bytes where
  "CRLF = [CHR 0x0D, CHR 0x0A]"

text \<open>
  \<open>s.replace(old, new)\<close>: every occurrence of \<open>old\<close>, found from the left and not
  overlapping.  The source calls it with the pattern \<open>'bagil'\<close> only; for the empty
  pattern (where Python inserts \<open>new\<close> between all characters) the model returns \<open>s\<close>.
\<close>

function replace :: "string \<Rightarrow> string \<Rightarrow> string \<Rightarrow> string" where
  "replace old new [] = []"
| "replace old new (c # cs) =
     (if old \<noteq> [] \<and> take (length old) (c # cs) = old
      then new @ replace old new (drop (length old) (c # cs))
      else c # replace old new cs)"
  by pat_completeness auto
termination
  by (relation "measure (\<lambda>(old, new, s). length s)") auto

text \<open>\<open>str(n)\<close> for a natural number and for an integer, and the format \<open>{n:02d}\<close>.\<close>

definition digit_char :: "nat \<Rightarrow> char" where
  "digit_char n = char_of (48 + n)"

function str_nat :: "nat \<Rightarrow> string" where
  "str_nat n = (if n < 10 then [digit_char n] else str_nat (n div 10) @ [digit_char (n mod 10)])"
  by pat_completeness auto
termination
  by (relation "measure id") auto

declare str_nat.simps [simp del]

definition str_int :: "int \<Rightarrow> string" where
  "str_int i = (if i < 0 then CHR ''-'' # str_nat (nat (- i)) else str_nat (nat i))"

definition format_02d :: "nat \<Rightarrow> string" where
  "format_02d n = (if n < 10 then CHR ''0'' # str_nat n else str_nat n)"

text \<open>The number that a string of decimal digits denotes.\<close>

definition decimal_value :: "string \<Rightarrow> nat" where
  "decimal_value s = foldl (\<lambda>v c. 10 * v + (of_char c - 48)) 0 s"

text \<open>\<open>sep.join(parts)\<close>.\<close>

fun join :: "bytes \<Rightarrow> bytes list \<Rightarrow> bytes" where
  "join sep [] = []"
| "join sep [x] = x"
| "join sep (x # y # ys) = x @ sep @ join sep (y # ys)"

text \<open>
  \<open>s.split(sep)\<close> for a non-empty separator (the source splits at \<open>b"\r\n"\<close> only):
  \<open>split_from sep cur s\<close> scans \<open>s\<close> with the piece \<open>cur\<close> read so far.
\<close>

function split_from :: "bytes \<Rightarrow> bytes \<Rightarrow> bytes \<Rightarrow> bytes list" where
  "split_from sep cur [] = [cur]"
| "split_from sep cur (c # cs) =
     (if sep \<noteq> [] \<and> take (length sep) (c # cs) = sep
      then cur # split_from sep [] (drop (length sep) (c # cs))
      else split_from sep (cur @ [c]) cs)"
  by pat_completeness auto
termination
  by (relation "measure (\<lambda>(sep, cur, s). length s)") auto

definition split :: "bytes \<Rightarrow> bytes \<Rightarrow> bytes list" where
  "split s sep = split_from sep [] s"

section \<open>Rounds, the downloader and its collaborators\<close>

text \<open>
  \<open>RoundData.timestamp\<close> arrives as ISO text and is overwritten by \<open>fetch\<close> with the
  \<open>datetime\<close> that \<open>isoparse\<close> returns; of a \<open>datetime\<close> the code reads the year, the
  month and the day.
\<close>

datatype datetime = DateTime (year: nat) (month: nat) (day: nat)

datatype timestamp_value = is_Text: Text string | is_Instant: Instant datetime

record RoundData =
  server :: string
  roundID :: int
  timestamp :: timestamp_value
  roundStartSuicide :: bool

text \<open>
  Rounds are objects: the downloader's list and the argument of \<open>get_logs_async\<close> hold
  references to them, and \<open>fetch\<close> mutates the object it is given.
\<close>

type_synonym ref = nat
type_synonym heap = "ref \<Rightarrow> RoundData"

text \<open>\<open>self.rounds\<close> is a list, or \<open>None\<close> once \<open>update_round_list\<close> has returned \<open>None\<close> into it.\<close>

record LogDownloader =
  tgforums_cookie :: string
  user_agent :: string
  output_path :: string
  rounds :: "ref list option"

datatype exn = ValueError | TypeError | AttributeError | ClientError

text \<open>What \<open>session.get(link)\<close> and \<open>rsp.read()\<close> give: a response with its \<open>ok\<close> flag and
  body, or a network-level failure (an exception of the HTTP client).\<close>

datatype response = Response bool bytes | ConnectionFailed

text \<open>
  \<open>url.format(server=..., year=..., month=..., day=..., round_id=...)\<close> for one of the
  two URL constants of \<open>constants.py\<close>, which is not part of the sources: a template is
  taken as the function of the five keyword arguments that formatting it computes.
\<close>

type_synonym url_template = "string \<Rightarrow> string \<Rightarrow> string \<Rightarrow> string \<Rightarrow> int \<Rightarrow> string"

text \<open>
  Everything the class takes from outside: the two URL constants, Python's
  \<open>str.lower\<close>, \<open>dateutil\<close>'s
  \<open>isoparse\<close> on a string (\<open>None\<close> where it raises \<open>ValueError\<close>), the server's answer to
  a GET of a URL under the session's cookie and user agent, and the two abstract
  methods of the class.  The server answers a URL in the same way whenever it is
  asked.  \<open>update_round_list\<close> gives the value it returns and the downloader and the
  rounds as it leaves them.
\<close>

record world =
  GAME_TXT_URL :: url_template
  GAME_TXT_ADMIN_URL :: url_template
  str_lower :: "string \<Rightarrow> string"
  isoparse :: "string \<Rightarrow> datetime option"
  http_get :: "string \<Rightarrow> string \<Rightarrow> string \<Rightarrow> response"
  filter_lines :: "LogDownloader \<Rightarrow> bytes list \<Rightarrow> bytes list"
  update_round_list :: "LogDownloader \<Rightarrow> heap \<Rightarrow> ref list option \<times> LogDownloader \<times> heap"

section \<open>\<open>get_log_links\<close>\<close>

text \<open>The URL that one pass of the loop of \<open>get_log_links\<close> yields for the round \<open>rnd\<close>;
  reading \<open>.year\<close> of a timestamp that is still text raises \<open>AttributeError\<close>.\<close>

definition log_link :: "world \<Rightarrow> LogDownloader \<Rightarrow> RoundData \<Rightarrow> exn + string" where
  "log_link w self rnd =
     (let url = (if tgforums_cookie self \<noteq> [] then GAME_TXT_ADMIN_URL w else GAME_TXT_URL w)
      in case timestamp rnd of
           Text s \<Rightarrow> Inl AttributeError
         | Instant t \<Rightarrow>
             Inr (url (replace ''bagil'' ''basil'' (str_lower w (server rnd)))
                      (str_nat (year t)) (format_02d (month t)) (format_02d (day t))
                      (roundID rnd)))"

text \<open>The generator run to its end over the rounds \<open>rs\<close>: the links it yields and the
  exception that ends it, if one does.\<close>

fun links_of :: "world \<Rightarrow> LogDownloader \<Rightarrow> heap \<Rightarrow> ref list \<Rightarrow> string list \<times> exn option" where
  "links_of w self h [] = ([], None)"
| "links_of w self h (r # rs) =
     (case log_link w self (h r) of
        Inl e \<Rightarrow> ([], Some e)
      | Inr link \<Rightarrow> (case links_of w self h rs of (ls, e) \<Rightarrow> (link # ls, e)))"

definition get_log_links :: "world \<Rightarrow> LogDownloader \<Rightarrow> heap \<Rightarrow> string list \<times> exn option" where
  "get_log_links w self h =
     (case rounds self of
        None \<Rightarrow> ([], Some TypeError)
      | Some rs \<Rightarrow> links_of w self h rs)"

section \<open>\<open>get_logs_async\<close>\<close>

text \<open>
  What a finished \<open>fetch\<close> task holds: the pair it returned, the \<open>None\<close> it returns when
  the loop over the links runs out, or the exception it raised.
\<close>

datatype fetch_result = Returned ref bytes | ReturnedNone | Raised exn

text \<open>
  A task is suspended in \<open>session.get(link)\<close>, with the rounds that its link generator
  has still to visit, or it is done.
\<close>

datatype task = Waiting ref string "ref list" | Done fetch_result

text \<open>The loop header \<open>async for link in self.get_log_links()\<close>: the next link is built
  from the round as it is at that moment, and the request for it is sent.\<close>

definition next_link :: "world \<Rightarrow> LogDownloader \<Rightarrow> heap \<Rightarrow> ref \<Rightarrow> ref list \<Rightarrow> task" where
  "next_link w self h a rs =
     (case rs of
        [] \<Rightarrow> Done ReturnedNone
      | r # rest \<Rightarrow>
          (case log_link w self (h r) of
             Inl e \<Rightarrow> Done (Raised e)
           | Inr link \<Rightarrow> Waiting a link rest))"

text \<open>
  A task from its start to its first suspension: \<open>isoparse\<close> of the round's timestamp
  (which raises \<open>TypeError\<close> on a \<open>datetime\<close> and \<open>ValueError\<close> on text that is no ISO
  date), the assignment to the round, and the first link.
\<close>

definition fetch_start :: "world \<Rightarrow> LogDownloader \<Rightarrow> heap \<Rightarrow> ref \<Rightarrow> heap \<times> task" where
  "fetch_start w self h a =
     (case timestamp (h a) of
        Instant t \<Rightarrow> (h, Done (Raised TypeError))
      | Text s \<Rightarrow>
          (case isoparse w s of
             None \<Rightarrow> (h, Done (Raised ValueError))
           | Some t \<Rightarrow>
               (let h' = h(a := (h a)\<lparr>timestamp := Instant t\<rparr>)
                in (h', case rounds self of
                          None \<Rightarrow> Done (Raised TypeError)
                        | Some rs \<Rightarrow> next_link w self h' a rs))))"

text \<open>
  A task resumed by the answer to its request: a response that is not \<open>ok\<close> goes on to
  the next link, an \<open>ok\<close> one is read, appended to the empty \<open>responses\<close> and returned
  joined, a failure of the network is raised.
\<close>

definition fetch_resume :: "world \<Rightarrow> LogDownloader \<Rightarrow> heap \<Rightarrow> task \<Rightarrow> task" where
  "fetch_resume w self h t =
     (case t of
        Done r \<Rightarrow> Done r
      | Waiting a link rest \<Rightarrow>
          (case http_get w (tgforums_cookie self) (user_agent self) link of
             ConnectionFailed \<Rightarrow> Done (Raised ClientError)
           | Response ok body \<Rightarrow>
               if \<not> ok then next_link w self h a rest
               else Done (Returned a (join CRLF ([] @ [body])))))"

text \<open>\<open>asyncio.ensure_future\<close> for every round: the event loop runs the new tasks in
  the order of their creation, each up to its first suspension.\<close>

fun start_all :: "world \<Rightarrow> LogDownloader \<Rightarrow> heap \<Rightarrow> ref list \<Rightarrow> heap \<times> task list" where
  "start_all w self h [] = (h, [])"
| "start_all w self h (a # as) =
     (case fetch_start w self h a of
        (h1, t) \<Rightarrow> (case start_all w self h1 as of (h2, ts) \<Rightarrow> (h2, t # ts)))"

text \<open>The answer to the request of task \<open>i\<close> arrives and the task runs to its next
  suspension.\<close>

definition deliver :: "world \<Rightarrow> LogDownloader \<Rightarrow> heap \<Rightarrow> nat \<Rightarrow> task list \<Rightarrow> task list" where
  "deliver w self h i ts =
     (if i < length ts then ts[i := fetch_resume w self h (ts ! i)] else ts)"

text \<open>A task followed until it is done.\<close>

fun pending :: "task \<Rightarrow> nat" where
  "pending (Done r) = 0"
| "pending (Waiting a link rest) = Suc (length rest)"

function run_task :: "world \<Rightarrow> LogDownloader \<Rightarrow> heap \<Rightarrow> task \<Rightarrow> fetch_result" where
  "run_task w self h (Done r) = r"
| "run_task w self h (Waiting a link rest) =
     run_task w self h (fetch_resume w self h (Waiting a link rest))"
  by pat_completeness auto
termination
  by (relation "measure (\<lambda>(w, self, h, t). pending t)")
     (auto simp: fetch_resume_def next_link_def split: response.splits list.splits sum.splits)

text \<open>
  The loop \<open>for task in tasks\<close>: each result is awaited in turn and unpacked; an empty
  response is yielded as \<open>None\<close>, any other split at \<open>b"\r\n"\<close>.  Awaiting a task that
  raised raises its exception, and unpacking the \<open>None\<close> of a task raises \<open>TypeError\<close>;
  either ends the generator.
\<close>

type_synonym outcome = "ref \<times> bytes list option"

fun yield_results :: "fetch_result list \<Rightarrow> outcome list \<times> exn option" where
  "yield_results [] = ([], None)"
| "yield_results (Returned a response # rest) =
     (case yield_results rest of
        (ys, e) \<Rightarrow> ((a, if response = [] then None else Some (split response CRLF)) # ys, e))"
| "yield_results (ReturnedNone # rest) = ([], Some TypeError)"
| "yield_results (Raised e # rest) = ([], Some e)"

text \<open>
  \<open>get_logs_async\<close> under a schedule: all tasks are started, the answers of the server
  arrive in the order \<open>sched\<close> (a list of task numbers), and every task still suspended
  after that runs on to its end.  The result is the rounds as the tasks leave them, the
  outcomes yielded, and the exception that ends the generator, if one does.
\<close>

record generated =
  rounds_after :: heap
  yielded :: "outcome list"
  raised :: "exn option"

definition get_logs_async ::
  "world \<Rightarrow> LogDownloader \<Rightarrow> heap \<Rightarrow> ref list \<Rightarrow> nat list \<Rightarrow> generated" where
  "get_logs_async w self h rs sched =
     (case start_all w self h rs of
        (h', ts) \<Rightarrow>
          (case yield_results (map (run_task w self h') (fold (deliver w self h') sched ts)) of
             (ys, e) \<Rightarrow> \<lparr>rounds_after = h', yielded = ys, raised = e\<rparr>))"

section \<open>\<open>format_line_bytes\<close> and \<open>process_and_write\<close>\<close>

definition format_line_bytes :: "bytes \<Rightarrow> RoundData \<Rightarrow> bytes" where
  "format_line_bytes line round_data =
     server round_data @ '' '' @ str_int (roundID round_data) @ '' | '' @ line @ [CHR 0x0A]"

text \<open>The colour codes of \<open>colorama.Fore\<close> and the two lines that the driver prints.\<close>

definition Fore_YELLOW :: string where "Fore_YELLOW = CHR 0x1B # ''[33m''"
definition Fore_MAGENTA :: string where "Fore_MAGENTA = CHR 0x1B # ''[35m''"
definition Fore_RESET :: string where "Fore_RESET = CHR 0x1B # ''[39m''"

definition not_found_warning :: "RoundData \<Rightarrow> string" where
  "not_found_warning round_data =
     Fore_YELLOW @ ''WARNING:'' @ Fore_RESET @ '' Could not find round '' @
     str_int (roundID round_data) @ '' on '' @ server round_data"

definition suicide_warning :: "RoundData \<Rightarrow> string" where
  "suicide_warning round_data =
     Fore_MAGENTA @ ''WARNING:'' @ Fore_RESET @ '' round start suicide '' @
     ''in round '' @ str_int (roundID round_data) @ '' on '' @ server round_data"

text \<open>
  The body of the loop \<open>async for round_data, logs in pbar\<close> over the outcomes yielded:
  the lines printed and the bytes written to the file.  The progress bar itself is not
  modelled.
\<close>

fun write_rounds :: "world \<Rightarrow> LogDownloader \<Rightarrow> heap \<Rightarrow> outcome list \<Rightarrow> string list \<times> bytes" where
  "write_rounds w self h [] = ([], [])"
| "write_rounds w self h ((a, logs) # rest) =
     (case write_rounds w self h rest of
        (printed, written) \<Rightarrow>
          (case logs of
             None \<Rightarrow> (not_found_warning (h a) # printed, written)
           | Some ls \<Rightarrow>
               if ls = [] then (not_found_warning (h a) # printed, written)
               else ((if roundStartSuicide (h a) then [suicide_warning (h a)] else []) @ printed,
                     concat (map (\<lambda>line. format_line_bytes line (h a)) (filter_lines w self ls))
                       @ written)))"

text \<open>
  \<open>process_and_write\<close> on a file system (a map from paths to contents).  Opening the
  file for writing empties it; what is written before an exception stays in it.  The
  result is the downloader, the rounds and the file system afterwards, the lines
  printed, and the exception that the call raises, if any.
\<close>

type_synonym files = "string \<rightharpoonup> bytes"

record run =
  self_after :: LogDownloader
  heap_after :: heap
  files_after :: files
  printed :: "string list"
  failure :: "exn option"

text \<open>\<open>output_path or self.output_path\<close>.\<close>

definition chosen_path :: "LogDownloader \<Rightarrow> string option \<Rightarrow> string" where
  "chosen_path self path =
     (case path of
        None \<Rightarrow> output_path self
      | Some p \<Rightarrow> if p = [] then output_path self else p)"

definition process_and_write ::
  "world \<Rightarrow> LogDownloader \<Rightarrow> heap \<Rightarrow> files \<Rightarrow> string option \<Rightarrow> nat list \<Rightarrow> run" where
  "process_and_write w self h fs path sched =
     (let out_path = chosen_path self path;
          (self1, h1) = (if rounds self \<noteq> None \<and> rounds self \<noteq> Some [] then (self, h)
                         else case update_round_list w self h of
                                (v, self', h') \<Rightarrow> (self'\<lparr>rounds := v\<rparr>, h'))
      in case rounds self1 of
           None \<Rightarrow>
             \<lparr>self_after = self1, heap_after = h1, files_after = fs(out_path \<mapsto> []),
              printed = [], failure = Some TypeError\<rparr>
         | Some rs \<Rightarrow>
             (let g = get_logs_async w self1 h1 rs sched
              in case write_rounds w self1 (rounds_after g) (yielded g) of
                   (ps, written) \<Rightarrow>
                     \<lparr>self_after = self1, heap_after = rounds_after g,
                      files_after = fs(out_path \<mapsto> written), printed = ps,
                      failure = raised g\<rparr>))"

text \<open>A second call on the downloader, the rounds and the files that a first call left.\<close>

definition run_again :: "world \<Rightarrow> run \<Rightarrow> string option \<Rightarrow> nat list \<Rightarrow> run" where
  "run_again w r path sched =
     process_and_write w (self_after r) (heap_after r) (files_after r) path sched"

section \<open>Notions for the proofs\<close>

text \<open>The round that a task was created for is the only one it can return.\<close>

fun belongs :: "ref \<Rightarrow> task \<Rightarrow> bool" where
  "belongs a (Waiting a' link rest) = (a' = a)"
| "belongs a (Done (Returned a' body)) = (a' = a)"
| "belongs a (Done ReturnedNone) = True"
| "belongs a (Done (Raised e)) = True"

text \<open>A timestamp on which \<open>isoparse\<close> raises: a \<open>datetime\<close>, or text that is no ISO date.\<close>

fun rejected :: "world \<Rightarrow> timestamp_value \<Rightarrow> bool" where
  "rejected w (Instant t) = True"
| "rejected w (Text s) = (isoparse w s = None)"

text \<open>
  The rounds \<open>h'\<close> are the rounds \<open>h\<close> after some tasks have started: a round is as it
  was, or its textual timestamp has become an instant.
\<close>

definition later :: "heap \<Rightarrow> heap \<Rightarrow> bool" where
  "later h h' =
     (\<forall>r. h' r = h r \<or> (is_Text (timestamp (h r)) \<and> (\<exists>t. h' r = (h r)\<lparr>timestamp := Instant t\<rparr>)))"

section \<open>A concrete archive\<close>

text \<open>
  Two templates, a parser that knows two dates, and a server that holds the logs of
  three rounds (one of them empty), fails to connect for a fourth and answers with a
  non-success status for everything else.  \<open>ex_lower\<close> is \<open>str.lower\<close> on text whose
  capitals are those of ASCII (\<open>A\<close> to \<open>Z\<close>) and of Latin-1 (U+00C0 to U+00DE without
  U+00D7, in UTF-8 the byte C3 and a byte from 80 to 9E without 97); the servers of
  the rounds below are written in ASCII.
\<close>

definition ex_lower_char :: "char \<Rightarrow> char" where
  "ex_lower_char c =
     (let n = (of_char c :: nat)
      in if 65 \<le> n \<and> n \<le> 90 then char_of (n + 32) else c)"

fun ex_lower :: "string \<Rightarrow> string" where
  "ex_lower [] = []"
| "ex_lower [c] = [ex_lower_char c]"
| "ex_lower (c # d # cs) =
     (if (of_char c :: nat) = 195 \<and> 128 \<le> (of_char d :: nat) \<and> (of_char d :: nat) \<le> 158
         \<and> (of_char d :: nat) \<noteq> 151
      then c # char_of ((of_char d :: nat) + 32) # ex_lower cs
      else ex_lower_char c # ex_lower (d # cs))"

definition ex_plain :: url_template where
  "ex_plain srv y m d rid =
     ''http://logs/parsed/'' @ srv @ ''/'' @ y @ ''/'' @ m @ ''/'' @ d @ ''/round-'' @ str_int rid"

definition ex_admin :: url_template where
  "ex_admin srv y m d rid =
     ''http://logs/raw/'' @ srv @ ''/'' @ y @ ''/'' @ m @ ''/'' @ d @ ''/round-'' @ str_int rid"

definition ex_isoparse :: "string \<Rightarrow> datetime option" where
  "ex_isoparse s =
     (if s = ''2023-01-02T03:04:05'' then Some (DateTime 2023 1 2)
      else if s = ''2023-11-12T00:00:00'' then Some (DateTime 2023 11 12)
      else None)"

definition ex_http :: "string \<Rightarrow> string \<Rightarrow> string \<Rightarrow> response" where
  "ex_http cookie agent url =
     (if url = ''http://logs/parsed/basil/2023/01/02/round-42''
      then Response True (''Foo happened'' @ CRLF @ ''Bar'')
      else if url = ''http://logs/parsed/sybil/2023/11/12/round-7'' then Response True ''Baz''
      else if url = ''http://logs/parsed/terry/2023/01/02/round-9'' then Response True []
      else if url = ''http://logs/parsed/down/2023/01/02/round-1'' then ConnectionFailed
      else Response False ''not found'')"

definition ex_world :: world where
  "ex_world =
     \<lparr>GAME_TXT_URL = ex_plain, GAME_TXT_ADMIN_URL = ex_admin, str_lower = ex_lower,
      isoparse = ex_isoparse,
      http_get = ex_http, filter_lines = (\<lambda>self ls. filter (\<lambda>l. l \<noteq> ''Bar'') ls),
      update_round_list = (\<lambda>self h. (None, self, h))\<rparr>"

definition ex_round :: "string \<Rightarrow> int \<Rightarrow> string \<Rightarrow> bool \<Rightarrow> RoundData" where
  "ex_round srv rid ts flag =
     \<lparr>server = srv, roundID = rid, timestamp = Text ts, roundStartSuicide = flag\<rparr>"

text \<open>Round 0 and 1 have a log, the log of round 2 is empty, round 3 is not found, the
  request for round 4 fails and the timestamp of round 5 is no ISO date.\<close>

definition ex_heap :: heap where
  "ex_heap =
     (\<lambda>r. ex_round ''Manuel'' 5 ''2023-01-02T03:04:05'' False)
       (0 := ex_round ''Bagil'' 42 ''2023-01-02T03:04:05'' False,
        1 := ex_round ''Sybil'' 7 ''2023-11-12T00:00:00'' True,
        2 := ex_round ''Terry'' 9 ''2023-01-02T03:04:05'' False,
        4 := ex_round ''Down'' 1 ''2023-01-02T03:04:05'' False,
        5 := ex_round ''Event'' 3 ''yesterday'' False)"

definition ex_self :: "ref list \<Rightarrow> LogDownloader" where
  "ex_self rs =
     \<lparr>tgforums_cookie = [], user_agent = ''ss13-tools'', output_path = ''logs.log'',
      rounds = Some rs\<rparr>"

section \<open>Tasks and schedules\<close>

lemma run_task_resume:
  "run_task w self h (fetch_resume w self h t) = run_task w self h t"
proof (cases t)
  case (Waiting a link rest)
  then show ?thesis by (simp only: run_task.simps)
next
  case (Done r)
  then show ?thesis by (simp add: fetch_resume_def)
qed

lemma map_run_task_deliver:
  "map (run_task w self h) (deliver w self h i ts) = map (run_task w self h) ts"
proof (cases "i < length ts")
  case True
  have "map (run_task w self h) (ts[i := fetch_resume w self h (ts ! i)])
          = (map (run_task w self h) ts)[i := run_task w self h (ts ! i)]"
    by (simp add: map_update run_task_resume)
  also have "\<dots> = map (run_task w self h) ts"
    using True by (metis length_map list_update_id nth_map)
  finally show ?thesis using True by (simp add: deliver_def)
next
  case False
  then show ?thesis by (simp add: deliver_def)
qed

lemma map_run_task_fold:
  "map (run_task w self h) (fold (deliver w self h) sched ts) = map (run_task w self h) ts"
  by (induction sched arbitrary: ts) (simp_all add: map_run_task_deliver)

lemma get_logs_async_any_schedule:
  "get_logs_async w self h rs sched = get_logs_async w self h rs sched'"
  by (simp add: get_logs_async_def map_run_task_fold case_prod_unfold)

lemma belongs_next_link: "belongs a (next_link w self h a rs)"
  by (simp add: next_link_def split: list.splits sum.splits)

lemma belongs_resume: "belongs a t \<Longrightarrow> belongs a (fetch_resume w self h t)"
  by (cases t) (auto simp: fetch_resume_def belongs_next_link split: response.splits)

lemma belongs_run_task:
  "belongs a t \<Longrightarrow> run_task w self h t = Returned a' body \<Longrightarrow> a' = a"
proof (induction w self h t rule: run_task.induct)
  case (1 w self h r)
  then show ?case by simp
next
  case (2 w self h b link rest)
  from "2.prems"(1) have "belongs a (fetch_resume w self h (Waiting b link rest))"
    by (rule belongs_resume)
  moreover from "2.prems"(2)
  have "run_task w self h (fetch_resume w self h (Waiting b link rest)) = Returned a' body"
    by simp
  ultimately show ?case by (rule "2.IH")
qed

lemma belongs_start: "belongs a (snd (fetch_start w self h a))"
  by (simp add: fetch_start_def belongs_next_link Let_def
           split: timestamp_value.splits option.splits)

lemma length_start_all: "length (snd (start_all w self h rs)) = length rs"
  by (induction rs arbitrary: h) (simp_all add: case_prod_unfold)

lemma start_all_belongs: "list_all2 belongs rs (snd (start_all w self h rs))"
proof (induction rs arbitrary: h)
  case Nil
  show ?case by simp
next
  case (Cons a rs)
  obtain h1 t where s1: "fetch_start w self h a = (h1, t)" by (cases "fetch_start w self h a")
  obtain h2 ts where s2: "start_all w self h1 rs = (h2, ts)" by (cases "start_all w self h1 rs")
  have "belongs a t" using belongs_start [of a w self h] s1 by simp
  moreover have "list_all2 belongs rs ts" using Cons.IH [of h1] s2 by simp
  ultimately show ?case using s1 s2 by simp
qed

lemma yield_results_prefix:
  "list_all2 (\<lambda>a t. belongs a t) rs ts \<Longrightarrow>
   map fst (fst (yield_results (map (run_task w self h) ts)))
     = take (length (fst (yield_results (map (run_task w self h) ts)))) rs"
proof (induction rs ts rule: list_all2_induct)
  case Nil
  show ?case by simp
next
  case (Cons a rs t ts)
  show ?case
  proof (cases "run_task w self h t")
    case (Returned a' body)
    with Cons.hyps(1) have "a' = a" by (metis belongs_run_task)
    with Returned Cons.IH show ?thesis by (simp add: case_prod_unfold)
  next
    case ReturnedNone
    then show ?thesis by simp
  next
    case (Raised e)
    then show ?thesis by simp
  qed
qed

lemma yield_results_complete:
  "snd (yield_results results) = None \<Longrightarrow>
   length (fst (yield_results results)) = length results"
  by (induction results rule: yield_results.induct) (simp_all add: case_prod_unfold)

lemma yield_results_stop:
  "i < length results \<Longrightarrow> \<not> (\<exists>a body. results ! i = Returned a body) \<Longrightarrow>
   snd (yield_results results) \<noteq> None \<and> length (fst (yield_results results)) \<le> i"
proof (induction results arbitrary: i rule: yield_results.induct)
  case 1
  then show ?case by simp
next
  case (2 a response rest)
  then obtain j where j: "i = Suc j" by (cases i) auto
  with "2.prems" have "snd (yield_results rest) \<noteq> None \<and> length (fst (yield_results rest)) \<le> j"
    by (intro "2.IH") auto
  with j show ?case by (simp add: case_prod_unfold)
next
  case (3 rest)
  then show ?case by simp
next
  case (4 e rest)
  then show ?case by simp
qed

lemma yielded_get_logs_async:
  "yielded (get_logs_async w self h rs sched)
     = fst (yield_results (map (run_task w self (fst (start_all w self h rs)))
                               (snd (start_all w self h rs))))"
  by (simp add: get_logs_async_def map_run_task_fold case_prod_unfold)

lemma raised_get_logs_async:
  "raised (get_logs_async w self h rs sched)
     = snd (yield_results (map (run_task w self (fst (start_all w self h rs)))
                               (snd (start_all w self h rs))))"
  by (simp add: get_logs_async_def map_run_task_fold case_prod_unfold)

lemma rounds_after_get_logs_async:
  "rounds_after (get_logs_async w self h rs sched) = fst (start_all w self h rs)"
  by (simp add: get_logs_async_def case_prod_unfold)

text \<open>A timestamp that \<open>isoparse\<close> rejects stays as it is, whichever tasks start.\<close>

lemma fetch_start_keeps_unparseable:
  "timestamp (h r) = Text s \<Longrightarrow> isoparse w s = None \<Longrightarrow>
   timestamp (fst (fetch_start w self h a) r) = Text s"
  by (cases "a = r")
     (simp_all add: fetch_start_def Let_def split: timestamp_value.splits option.splits)

lemma fetch_start_unparseable:
  "timestamp (h a) = Text s \<Longrightarrow> isoparse w s = None \<Longrightarrow>
   snd (fetch_start w self h a) = Done (Raised ValueError)"
  by (simp add: fetch_start_def)

lemma start_all_unparseable:
  "i < length rs \<Longrightarrow> timestamp (h (rs ! i)) = Text s \<Longrightarrow> isoparse w s = None \<Longrightarrow>
   snd (start_all w self h rs) ! i = Done (Raised ValueError)"
proof (induction rs arbitrary: h i)
  case Nil
  then show ?case by simp
next
  case (Cons a rs)
  show ?case
  proof (cases i)
    case 0
    with Cons.prems show ?thesis
      by (simp add: case_prod_unfold fetch_start_unparseable)
  next
    case (Suc j)
    with Cons.prems have "timestamp (fst (fetch_start w self h a) (rs ! j)) = Text s"
      by (simp add: fetch_start_keeps_unparseable)
    with Suc Cons.prems
    have "snd (start_all w self (fst (fetch_start w self h a)) rs) ! j = Done (Raised ValueError)"
      by (intro Cons.IH) simp_all
    with Suc show ?thesis by (simp add: case_prod_unfold)
  qed
qed

lemma generator_stops_at_unparseable:
  assumes "i < length rs"
    and "timestamp (h (rs ! i)) = Text s"
    and "isoparse w s = None"
  shows "raised (get_logs_async w self h rs sched) \<noteq> None
       \<and> length (yielded (get_logs_async w self h rs sched)) \<le> i"
proof -
  let ?h = "fst (start_all w self h rs)"
  let ?ts = "snd (start_all w self h rs)"
  from assms have "?ts ! i = Done (Raised ValueError)"
    by (rule start_all_unparseable)
  with assms(1) have "map (run_task w self ?h) ?ts ! i = Raised ValueError"
    by (simp add: length_start_all)
  then have "\<not> (\<exists>a body. map (run_task w self ?h) ?ts ! i = Returned a body)"
    by simp
  with assms(1) show ?thesis
    unfolding yielded_get_logs_async raised_get_logs_async
    by (intro yield_results_stop) (simp add: length_start_all)
qed

section \<open>The order of the outcomes\<close>

text \<open>
  C1, as the code has it.  The outcomes that \<open>get_logs_async\<close> yields are those of a
  leading part of the rounds submitted, one each and in the order of submission; when
  the generator ends without an exception, that part is all of the rounds.  Neither
  the outcomes nor the exception depend on the order in which the answers of the
  server arrive.
\<close>

theorem get_logs_async_submission_order:
  "map fst (yielded (get_logs_async w self h rs sched))
     = take (length (yielded (get_logs_async w self h rs sched))) rs
   \<and> (raised (get_logs_async w self h rs sched) = None \<longrightarrow>
        map fst (yielded (get_logs_async w self h rs sched)) = rs)
   \<and> get_logs_async w self h rs sched = get_logs_async w self h rs []"
proof -
  let ?h = "fst (start_all w self h rs)"
  let ?ts = "snd (start_all w self h rs)"
  let ?ys = "fst (yield_results (map (run_task w self ?h) ?ts))"
  have pre: "map fst ?ys = take (length ?ys) rs"
    using start_all_belongs [of rs w self h] by (rule yield_results_prefix)
  have all: "map fst ?ys = rs" if "snd (yield_results (map (run_task w self ?h) ?ts)) = None"
  proof -
    from that have "length ?ys = length rs"
      using yield_results_complete [of "map (run_task w self ?h) ?ts"]
      by (simp add: length_start_all)
    with pre show ?thesis by simp
  qed
  show ?thesis
    unfolding yielded_get_logs_async raised_get_logs_async
    using pre all get_logs_async_any_schedule [of w self h rs sched "[]"] by blast
qed

text \<open>Two rounds whose answers arrive in the reverse order: round 1 first.\<close>

theorem get_logs_async_submission_order_witness:
  "raised (get_logs_async ex_world (ex_self [1, 0]) ex_heap [1, 0] [1, 0, 0, 1]) = None
   \<and> map fst (yielded (get_logs_async ex_world (ex_self [1, 0]) ex_heap [1, 0] [1, 0, 0, 1]))
       = [1, 0]"
proof -
  have ok: "raised (get_logs_async ex_world (ex_self [1, 0]) ex_heap [1, 0] [1, 0, 0, 1]) = None"
    by code_simp
  with get_logs_async_submission_order
         [of ex_world "ex_self [1, 0]" ex_heap "[1, 0]" "[1, 0, 0, 1]"]
  show ?thesis by blast
qed

text \<open>
  C1 as the specification states it fails: where the request of the first link cannot
  connect, the tasks raise and the generator yields nothing for its two rounds.
\<close>

theorem get_logs_async_no_outcome_counterexample:
  "length (yielded (get_logs_async ex_world (ex_self [4, 0]) ex_heap [4, 0] [])) \<noteq> length [4, 0 :: nat]
   \<and> raised (get_logs_async ex_world (ex_self [4, 0]) ex_heap [4, 0] []) = Some ClientError"
  by code_simp

section \<open>A timestamp that is no ISO date\<close>

text \<open>
  C5, as the code has it.  The task of a round whose timestamp \<open>isoparse\<close> rejects
  raises, and nothing catches it: \<open>get_logs_async\<close> ends with an exception, and it
  yields no outcome for that round or for any round after it.
\<close>

theorem unparseable_timestamp_ends_generator:
  assumes "i < length rs"
    and "timestamp (h (rs ! i)) = Text s"
    and "isoparse w s = None"
  shows "raised (get_logs_async w self h rs sched) \<noteq> None
       \<and> length (yielded (get_logs_async w self h rs sched)) \<le> i"
  using assms by (rule generator_stops_at_unparseable)

theorem unparseable_timestamp_ends_generator_witness:
  "raised (get_logs_async ex_world (ex_self [0, 5, 1]) ex_heap [0, 5, 1] [2, 0]) \<noteq> None
   \<and> length (yielded (get_logs_async ex_world (ex_self [0, 5, 1]) ex_heap [0, 5, 1] [2, 0])) \<le> 1"
proof -
  have "(1::nat) < length [0, 5, 1 :: nat]" by simp
  moreover have "timestamp (ex_heap ([0, 5, 1] ! 1)) = Text ''yesterday''"
    by (simp add: ex_heap_def ex_round_def)
  moreover have "isoparse ex_world ''yesterday'' = None"
    by (simp add: ex_world_def ex_isoparse_def)
  ultimately show ?thesis
    by (rule unparseable_timestamp_ends_generator)
qed

text \<open>
  C5 as the specification states it fails: the round in the middle has the timestamp
  \<open>yesterday\<close>; the generator yields the outcome of the round before it and raises
  \<open>ValueError\<close>, with no absent outcome for the round and none for the round after it.
\<close>

theorem unparseable_timestamp_counterexample:
  "yielded (get_logs_async ex_world (ex_self [0, 5, 1]) ex_heap [0, 5, 1] [])
     = [(0, Some [''Foo happened'', ''Bar''])]
   \<and> raised (get_logs_async ex_world (ex_self [0, 5, 1]) ex_heap [0, 5, 1] []) = Some ValueError"
  by code_simp

section \<open>What a task fetches\<close>

lemma split_from_not_empty: "split_from sep cur s \<noteq> []"
  by (induction sep cur s rule: split_from.induct) simp_all

lemma split_not_empty: "split s sep \<noteq> []"
  using split_from_not_empty [of sep "[]" s] by (simp add: split_def)

lemma split_empty_False: "[] = split s sep \<Longrightarrow> False"
  using split_not_empty [of s sep] by simp

lemma yield_results_nth:
  "i < length (fst (yield_results results)) \<Longrightarrow> results ! i = Returned a body \<Longrightarrow>
   fst (yield_results results) ! i = (a, if body = [] then None else Some (split body CRLF))"
proof (induction results arbitrary: i rule: yield_results.induct)
  case 1
  then show ?case by simp
next
  case (2 b response rest)
  show ?case
  proof (cases i)
    case 0
    with "2.prems" show ?thesis by (simp add: case_prod_unfold)
  next
    case (Suc j)
    with "2.prems" have "fst (yield_results rest) ! j
        = (a, if body = [] then None else Some (split body CRLF))"
      by (intro "2.IH") (simp_all add: case_prod_unfold)
    with Suc show ?thesis by (simp add: case_prod_unfold)
  qed
next
  case (3 rest)
  then show ?case by simp
next
  case (4 e rest)
  then show ?case by simp
qed

text \<open>An outcome is never an empty list of lines: an empty response is yielded as
  \<open>None\<close>, and a split has at least one piece.\<close>

lemma yield_results_no_empty_list: "(a, Some []) \<notin> set (fst (yield_results results))"
  by (induction results rule: yield_results.induct)
     (auto simp: case_prod_unfold dest: split_empty_False)

lemma get_logs_async_no_empty_list:
  "(a, Some []) \<notin> set (yielded (get_logs_async w self h rs sched))"
  unfolding yielded_get_logs_async by (rule yield_results_no_empty_list)

text \<open>A task suspended in the request of a link whose answer is an empty body with a
  success status returns the empty response, which is yielded as \<open>None\<close>.\<close>

lemma run_task_empty_body:
  "http_get w (tgforums_cookie self) (user_agent self) link = Response True [] \<Longrightarrow>
   run_task w self h (Waiting a link rest) = Returned a []"
  by (simp add: fetch_resume_def)

lemma yield_results_empty_body:
  "yield_results (Returned a [] # rest)
     = ((a, None) # fst (yield_results rest), snd (yield_results rest))"
  by (simp add: case_prod_unfold)

lemma later_refl: "later h h"
  by (simp add: later_def)

lemma later_trans: "later h1 h2 \<Longrightarrow> later h2 h3 \<Longrightarrow> later h1 h3"
  unfolding later_def
proof
  fix r
  assume a: "\<forall>r. h2 r = h1 r \<or> (is_Text (timestamp (h1 r)) \<and> (\<exists>t. h2 r = (h1 r)\<lparr>timestamp := Instant t\<rparr>))"
    and b: "\<forall>r. h3 r = h2 r \<or> (is_Text (timestamp (h2 r)) \<and> (\<exists>t. h3 r = (h2 r)\<lparr>timestamp := Instant t\<rparr>))"
  from a have a': "h2 r = h1 r \<or> (is_Text (timestamp (h1 r)) \<and> (\<exists>t. h2 r = (h1 r)\<lparr>timestamp := Instant t\<rparr>))" ..
  from b have b': "h3 r = h2 r \<or> (is_Text (timestamp (h2 r)) \<and> (\<exists>t. h3 r = (h2 r)\<lparr>timestamp := Instant t\<rparr>))" ..
  from a' b' show "h3 r = h1 r \<or> (is_Text (timestamp (h1 r)) \<and> (\<exists>t. h3 r = (h1 r)\<lparr>timestamp := Instant t\<rparr>))"
    by auto
qed

lemma later_fetch_start: "later h (fst (fetch_start w self h a))"
  by (auto simp: later_def fetch_start_def Let_def split: timestamp_value.splits option.splits)

lemma later_start_all: "later h (fst (start_all w self h rs))"
proof (induction rs arbitrary: h)
  case Nil
  show ?case by (simp add: later_refl)
next
  case (Cons a rs)
  have "later h (fst (fetch_start w self h a))" by (rule later_fetch_start)
  moreover have "later (fst (fetch_start w self h a)) (fst (start_all w self (fst (fetch_start w self h a)) rs))"
    by (rule Cons.IH)
  ultimately show ?case by (simp add: case_prod_unfold later_trans)
qed

lemma later_log_link:
  "later h h' \<Longrightarrow> log_link w self (h r) = Inr link \<Longrightarrow> log_link w self (h' r) = Inr link"
proof -
  assume l: "later h h'" and k: "log_link w self (h r) = Inr link"
  from k have "is_Instant (timestamp (h r))"
    by (cases "timestamp (h r)") (simp_all add: log_link_def)
  moreover from l have "h' r = h r \<or> is_Text (timestamp (h r))"
    unfolding later_def by blast
  ultimately have "h' r = h r"
    by (cases "timestamp (h r)") simp_all
  with k show ?thesis by simp
qed

text \<open>The response that a task returns does not depend on its round.\<close>

lemma run_task_other_round:
  "run_task w self h (next_link w self h a rs) = Returned a body \<Longrightarrow>
   run_task w self h (next_link w self h a' rs) = Returned a' body"
proof (induction rs)
  case Nil
  then show ?case by (simp add: next_link_def)
next
  case (Cons r rs)
  show ?case
  proof (cases "log_link w self (h r)")
    case (Inl e)
    with Cons.prems show ?thesis by (simp add: next_link_def)
  next
    case (Inr link)
    show ?thesis
    proof (cases "http_get w (tgforums_cookie self) (user_agent self) link")
      case ConnectionFailed
      with Inr Cons.prems show ?thesis by (simp add: next_link_def fetch_resume_def)
    next
      case (Response ok b)
      show ?thesis
      proof (cases ok)
        case True
        with Inr Response Cons.prems show ?thesis by (simp add: next_link_def fetch_resume_def)
      next
        case False
        with Inr Response Cons.prems
        have "run_task w self h (next_link w self h a rs) = Returned a body"
          by (simp add: next_link_def [of w self h a "r # rs"] fetch_resume_def)
        then have "run_task w self h (next_link w self h a' rs) = Returned a' body"
          by (rule Cons.IH)
        with Inr Response False show ?thesis
          by (simp add: next_link_def [of w self h a' "r # rs"] fetch_resume_def)
      qed
    qed
  qed
qed

lemma run_task_later:
  assumes "later h h'"
    and "run_task w self h' (next_link w self h a rs) = Returned a body"
  shows "run_task w self h' (next_link w self h' a rs) = Returned a body"
proof (cases rs)
  case Nil
  with assms(2) show ?thesis by (simp add: next_link_def)
next
  case (Cons r rest)
  show ?thesis
  proof (cases "log_link w self (h r)")
    case (Inl e)
    with Cons assms(2) show ?thesis by (simp add: next_link_def)
  next
    case (Inr link)
    with assms(1) have "log_link w self (h' r) = Inr link" by (rule later_log_link)
    with Inr Cons have "next_link w self h' a rs = next_link w self h a rs"
      by (simp add: next_link_def)
    with assms(2) show ?thesis by simp
  qed
qed

lemma fetch_start_task:
  "(\<exists>e. snd (fetch_start w self h a) = Done (Raised e))
   \<or> (\<exists>srs. rounds self = Some srs
         \<and> snd (fetch_start w self h a) = next_link w self (fst (fetch_start w self h a)) a srs)"
  by (auto simp: fetch_start_def Let_def split: timestamp_value.splits option.splits)

lemma start_all_tasks:
  "t \<in> set (snd (start_all w self h rs)) \<Longrightarrow>
   (\<exists>e. t = Done (Raised e))
   \<or> (\<exists>srs hs a. rounds self = Some srs \<and> t = next_link w self hs a srs
         \<and> later hs (fst (start_all w self h rs)))"
proof (induction rs arbitrary: h)
  case Nil
  then show ?case by simp
next
  case (Cons a rs)
  let ?h1 = "fst (fetch_start w self h a)"
  let ?t1 = "snd (fetch_start w self h a)"
  have fin: "fst (start_all w self h (a # rs)) = fst (start_all w self ?h1 rs)"
    by (simp add: case_prod_unfold)
  from Cons.prems have "t = ?t1 \<or> t \<in> set (snd (start_all w self ?h1 rs))"
    by (simp add: case_prod_unfold)
  then show ?case
  proof
    assume t: "t = ?t1"
    have "later ?h1 (fst (start_all w self ?h1 rs))" by (rule later_start_all)
    with t fetch_start_task [of w self h a] show ?thesis
      unfolding fin by blast
  next
    assume "t \<in> set (snd (start_all w self ?h1 rs))"
    then show ?thesis unfolding fin by (rule Cons.IH)
  qed
qed

lemma yield_results_member:
  "(a, ls) \<in> set (fst (yield_results results)) \<Longrightarrow>
   \<exists>body. Returned a body \<in> set results
     \<and> ls = (if body = [] then None else Some (split body CRLF))"
proof (induction results rule: yield_results.induct)
  case 1
  then show ?case by simp
next
  case (2 b response rest)
  from "2.prems" have "(a, ls) = (b, if response = [] then None else Some (split response CRLF))
      \<or> (a, ls) \<in> set (fst (yield_results rest))"
    by (simp add: case_prod_unfold)
  then show ?case
  proof
    assume "(a, ls) = (b, if response = [] then None else Some (split response CRLF))"
    then have "Returned a response \<in> set (Returned b response # rest)"
      and "ls = (if response = [] then None else Some (split response CRLF))"
      by simp_all
    then show ?thesis by blast
  next
    assume "(a, ls) \<in> set (fst (yield_results rest))"
    then obtain body where "Returned a body \<in> set rest"
      and "ls = (if body = [] then None else Some (split body CRLF))"
      using "2.IH" by blast
    then have "Returned a body \<in> set (Returned b response # rest)"
      and "ls = (if body = [] then None else Some (split body CRLF))"
      by simp_all
    then show ?thesis by blast
  qed
next
  case (3 rest)
  then show ?case by simp
next
  case (4 e rest)
  then show ?case by simp
qed

text \<open>All outcomes of a run carry the same lines.\<close>

lemma get_logs_async_same_lines:
  assumes "(a, ls) \<in> set (yielded (get_logs_async w self h rs sched))"
    and "(a', ls') \<in> set (yielded (get_logs_async w self h rs sched))"
  shows "ls = ls'"
proof -
  let ?h = "fst (start_all w self h rs)"
  let ?ts = "snd (start_all w self h rs)"
  have common: "\<exists>srs. rounds self = Some srs
      \<and> run_task w self ?h (next_link w self ?h 0 srs) = Returned 0 body"
    if "Returned b body \<in> set (map (run_task w self ?h) ?ts)" for b body
  proof -
    from that obtain t where t: "t \<in> set ?ts" "run_task w self ?h t = Returned b body"
      by auto
    from t(1) have "(\<exists>e. t = Done (Raised e))
       \<or> (\<exists>srs hs c. rounds self = Some srs \<and> t = next_link w self hs c srs \<and> later hs ?h)"
      by (rule start_all_tasks)
    with t(2) obtain srs hs c where s: "rounds self = Some srs"
      "t = next_link w self hs c srs" "later hs ?h"
      by auto
    from belongs_next_link [of c w self hs srs] t(2) s(2) have "b = c"
      by (metis belongs_run_task)
    with t(2) s(2) have "run_task w self ?h (next_link w self hs c srs) = Returned c body"
      by simp
    with s(3) have "run_task w self ?h (next_link w self ?h c srs) = Returned c body"
      by (rule run_task_later)
    then have "run_task w self ?h (next_link w self ?h 0 srs) = Returned 0 body"
      by (rule run_task_other_round)
    with s(1) show ?thesis by blast
  qed
  from assms(1) obtain body where b: "Returned a body \<in> set (map (run_task w self ?h) ?ts)"
    "ls = (if body = [] then None else Some (split body CRLF))"
    unfolding yielded_get_logs_async by (blast dest: yield_results_member)
  from assms(2) obtain body' where b': "Returned a' body' \<in> set (map (run_task w self ?h) ?ts)"
    "ls' = (if body' = [] then None else Some (split body' CRLF))"
    unfolding yielded_get_logs_async by (blast dest: yield_results_member)
  from common [OF b(1)] common [OF b'(1)] have "body = body'"
    by auto
  with b(2) b'(2) show ?thesis by simp
qed

text \<open>One round whose link is answered with a non-success status.\<close>

lemma single_round_not_found:
  assumes "rounds self = Some [a]"
    and "timestamp (h a) = Text s"
    and "isoparse w s = Some t"
    and "log_link w self ((h a)\<lparr>timestamp := Instant t\<rparr>) = Inr link"
    and "http_get w (tgforums_cookie self) (user_agent self) link = Response False body"
  shows "yielded (get_logs_async w self h [a] sched) = []
       \<and> raised (get_logs_async w self h [a] sched) = Some TypeError"
  using assms
  by (simp add: yielded_get_logs_async raised_get_logs_async fetch_start_def next_link_def
        fetch_resume_def Let_def)

text \<open>
  C2.  The only link of round 3 is answered with a non-success status.  The loop of
  \<open>fetch\<close> runs out of links without reaching its \<open>return\<close>, the task returns \<open>None\<close>, and
  unpacking it raises \<open>TypeError\<close> in \<open>get_logs_async\<close>: no outcome is yielded, and
  \<open>process_and_write\<close> prints no warning and raises.
\<close>

theorem not_found_round_raises:
  "yielded (get_logs_async ex_world (ex_self [3]) ex_heap [3] []) = []
   \<and> raised (get_logs_async ex_world (ex_self [3]) ex_heap [3] []) = Some TypeError
   \<and> printed (process_and_write ex_world (ex_self [3]) ex_heap Map.empty None []) = []
   \<and> failure (process_and_write ex_world (ex_self [3]) ex_heap Map.empty None []) = Some TypeError"
  by code_simp

text \<open>
  C3.  Rounds 0 and 1 are fetched together.  The link of round 1 is that of its own
  server and date, and the server answers it with the log \<open>Baz\<close>; but the task of
  round 1 walks the links of all rounds of the downloader from the first, so the
  outcome of round 1 is the log of round 0.
\<close>

theorem fetch_takes_first_round_log:
  "yielded (get_logs_async ex_world (ex_self [0, 1]) ex_heap [0, 1] [])
     = [(0, Some [''Foo happened'', ''Bar'']), (1, Some [''Foo happened'', ''Bar''])]
   \<and> log_link ex_world (ex_self [0, 1])
        (rounds_after (get_logs_async ex_world (ex_self [0, 1]) ex_heap [0, 1] []) 1)
       = Inr ''http://logs/parsed/sybil/2023/11/12/round-7''
   \<and> http_get ex_world [] ''ss13-tools'' ''http://logs/parsed/sybil/2023/11/12/round-7''
       = Response True ''Baz''"
  by code_simp

text \<open>
  C10.  The log of round 2 is empty and round 3 is not found.  For round 2 the
  generator yields the absent outcome and ends normally; for round 3 it yields
  nothing and raises \<open>TypeError\<close>, so the two are told apart by the consumer.
\<close>

theorem empty_body_differs_from_not_found:
  "yielded (get_logs_async ex_world (ex_self [2]) ex_heap [2] []) = [(2, None)]
   \<and> raised (get_logs_async ex_world (ex_self [2]) ex_heap [2] []) = None
   \<and> yielded (get_logs_async ex_world (ex_self [3]) ex_heap [3] []) = []
   \<and> raised (get_logs_async ex_world (ex_self [3]) ex_heap [3] []) = Some TypeError"
  by code_simp

section \<open>The driver\<close>

lemma write_rounds_append:
  "write_rounds w self h (xs @ ys)
     = (fst (write_rounds w self h xs) @ fst (write_rounds w self h ys),
        snd (write_rounds w self h xs) @ snd (write_rounds w self h ys))"
proof (induction xs)
  case Nil
  show ?case by simp
next
  case (Cons x xs)
  obtain a logs where x: "x = (a, logs)" by (cases x)
  show ?case
    unfolding x using Cons.IH
    by (simp add: case_prod_unfold split: option.splits)
qed

lemma write_rounds_absent:
  "write_rounds w self h ((a, None) # rest)
     = (not_found_warning (h a) # fst (write_rounds w self h rest),
        snd (write_rounds w self h rest))"
  by (simp add: case_prod_unfold)

lemma write_rounds_present:
  "ls \<noteq> [] \<Longrightarrow>
   write_rounds w self h ((a, Some ls) # rest)
     = ((if roundStartSuicide (h a) then [suicide_warning (h a)] else [])
          @ fst (write_rounds w self h rest),
        concat (map (\<lambda>line. format_line_bytes line (h a)) (filter_lines w self ls))
          @ snd (write_rounds w self h rest))"
  by (simp add: case_prod_unfold)

text \<open>What \<open>process_and_write\<close> prints and writes is the driver's loop run over the
  outcomes of \<open>get_logs_async\<close> for the rounds of the downloader.\<close>

lemma process_and_write_rounds:
  assumes "rounds self = Some (a # rs)"
  shows "process_and_write w self h fs path sched =
           \<lparr>self_after = self,
            heap_after = rounds_after (get_logs_async w self h (a # rs) sched),
            files_after = fs(chosen_path self path \<mapsto>
              snd (write_rounds w self (rounds_after (get_logs_async w self h (a # rs) sched))
                     (yielded (get_logs_async w self h (a # rs) sched)))),
            printed =
              fst (write_rounds w self (rounds_after (get_logs_async w self h (a # rs) sched))
                     (yielded (get_logs_async w self h (a # rs) sched))),
            failure = raised (get_logs_async w self h (a # rs) sched)\<rparr>"
  using assms by (simp add: process_and_write_def Let_def case_prod_unfold)

text \<open>
  C6.  For an absent outcome among the outcomes the driver prints one line, the
  warning with the round's id and server, and writes nothing; what it prints and
  writes for the outcomes before and after it is what it prints and writes for them
  without it.
\<close>

theorem absent_outcome_warns_and_continues:
  "write_rounds w self h (before @ (a, None) # after)
     = (fst (write_rounds w self h before) @ [not_found_warning (h a)]
          @ fst (write_rounds w self h after),
        snd (write_rounds w self h before) @ [] @ snd (write_rounds w self h after))
   \<and> not_found_warning (h a)
       = Fore_YELLOW @ ''WARNING:'' @ Fore_RESET @ '' Could not find round ''
           @ str_int (roundID (h a)) @ '' on '' @ server (h a)"
proof
  show "write_rounds w self h (before @ (a, None) # after)
     = (fst (write_rounds w self h before) @ [not_found_warning (h a)]
          @ fst (write_rounds w self h after),
        snd (write_rounds w self h before) @ [] @ snd (write_rounds w self h after))"
    unfolding write_rounds_append [of w self h before] write_rounds_absent by simp
next
  show "not_found_warning (h a)
       = Fore_YELLOW @ ''WARNING:'' @ Fore_RESET @ '' Could not find round ''
           @ str_int (roundID (h a)) @ '' on '' @ server (h a)"
    by (simp add: not_found_warning_def)
qed

theorem absent_outcome_warns_and_continues_witness:
  "write_rounds ex_world (ex_self [0, 2, 1]) ex_heap
      ([(0, Some [''Foo happened'', ''Bar''])] @ (2, None) # [(1, Some [''Baz''])])
     = ([Fore_YELLOW @ ''WARNING:'' @ Fore_RESET @ '' Could not find round 9 on Terry'',
         suicide_warning (ex_heap 1)],
        ''Bagil 42 | Foo happened'' @ [CHR 0x0A] @ ''Sybil 7 | Baz'' @ [CHR 0x0A])"
proof -
  have "fst (write_rounds ex_world (ex_self [0, 2, 1]) ex_heap [(0, Some [''Foo happened'', ''Bar''])]) = []"
    and "snd (write_rounds ex_world (ex_self [0, 2, 1]) ex_heap [(0, Some [''Foo happened'', ''Bar''])])
           = ''Bagil 42 | Foo happened'' @ [CHR 0x0A]"
    and "fst (write_rounds ex_world (ex_self [0, 2, 1]) ex_heap [(1, Some [''Baz''])])
           = [suicide_warning (ex_heap 1)]"
    and "snd (write_rounds ex_world (ex_self [0, 2, 1]) ex_heap [(1, Some [''Baz''])])
           = ''Sybil 7 | Baz'' @ [CHR 0x0A]"
    and "str_int (roundID (ex_heap 2)) = ''9''" and "server (ex_heap 2) = ''Terry''"
    by code_simp+
  with absent_outcome_warns_and_continues
         [of ex_world "ex_self [0, 2, 1]" ex_heap "[(0, Some [''Foo happened'', ''Bar''])]" 2
             "[(1, Some [''Baz''])]"]
  show ?thesis by simp
qed

text \<open>
  C7.  For a round with the flag set and lines fetched, the driver prints the notice
  and writes every line that the filter keeps, tagged, between what it writes for the
  outcomes before and after; the bytes written for the round are those written for it
  with the flag unset.
\<close>

theorem suicide_flag_round_is_written:
  assumes "roundStartSuicide (h a)" and "ls \<noteq> []"
  shows "write_rounds w self h (before @ (a, Some ls) # after)
           = (fst (write_rounds w self h before) @ [suicide_warning (h a)]
                @ fst (write_rounds w self h after),
              snd (write_rounds w self h before)
                @ concat (map (\<lambda>line. format_line_bytes line (h a)) (filter_lines w self ls))
                @ snd (write_rounds w self h after))
       \<and> snd (write_rounds w self h [(a, Some ls)])
           = snd (write_rounds w self (h(a := (h a)\<lparr>roundStartSuicide := False\<rparr>)) [(a, Some ls)])"
proof
  show "write_rounds w self h (before @ (a, Some ls) # after)
           = (fst (write_rounds w self h before) @ [suicide_warning (h a)]
                @ fst (write_rounds w self h after),
              snd (write_rounds w self h before)
                @ concat (map (\<lambda>line. format_line_bytes line (h a)) (filter_lines w self ls))
                @ snd (write_rounds w self h after))"
    unfolding write_rounds_append [of w self h before] write_rounds_present [OF assms(2)]
    using assms(1) by simp
next
  show "snd (write_rounds w self h [(a, Some ls)])
           = snd (write_rounds w self (h(a := (h a)\<lparr>roundStartSuicide := False\<rparr>)) [(a, Some ls)])"
    unfolding write_rounds_present [OF assms(2)]
    by (simp add: format_line_bytes_def)
qed

theorem suicide_flag_round_is_written_witness:
  "write_rounds ex_world (ex_self [1]) ex_heap ([] @ (1, Some [''Baz'', ''Bar'', ''Qux'']) # [])
     = ([] @ [suicide_warning (ex_heap 1)] @ [],
        [] @ (''Sybil 7 | Baz'' @ [CHR 0x0A] @ ''Sybil 7 | Qux'' @ [CHR 0x0A]) @ [])"
proof -
  have flag: "roundStartSuicide (ex_heap 1)"
    by (simp add: ex_heap_def ex_round_def)
  have lines: "[''Baz'', ''Bar'', ''Qux''] \<noteq> []"
    by simp
  have "concat (map (\<lambda>line. format_line_bytes line (ex_heap 1))
                  (filter_lines ex_world (ex_self [1]) [''Baz'', ''Bar'', ''Qux'']))
          = ''Sybil 7 | Baz'' @ [CHR 0x0A] @ ''Sybil 7 | Qux'' @ [CHR 0x0A]"
    by code_simp
  with suicide_flag_round_is_written
         [where h = ex_heap and a = 1 and ls = "[''Baz'', ''Bar'', ''Qux'']" and w = ex_world
            and self = "ex_self [1]" and before = "[]" and after = "[]", OF flag lines]
  show ?thesis by simp
qed

section \<open>The tag of a written line\<close>

lemma decimal_value_snoc:
  "decimal_value (s @ [c]) = 10 * decimal_value s + (of_char c - 48)"
  by (simp add: decimal_value_def)

lemma digit_char_value: "d < 10 \<Longrightarrow> (of_char (digit_char d) :: nat) - 48 = d"
  by (simp add: digit_char_def)

lemma str_nat_decimal: "decimal_value (str_nat n) = n"
proof (induction n rule: str_nat.induct)
  case (1 n)
  show ?case
  proof (cases "n < 10")
    case True
    then show ?thesis
      using decimal_value_snoc [of "[]" "digit_char n"]
      by (simp add: str_nat.simps [of n] digit_char_value decimal_value_def)
  next
    case False
    with 1 have "decimal_value (str_nat (n div 10)) = n div 10" by simp
    with False show ?thesis
      by (simp add: str_nat.simps [of n] decimal_value_snoc digit_char_value)
  qed
qed

text \<open>
  C8.  A line is tagged with the server, a space, the round id in decimal, \<open>" | "\<close>, the
  line as it is and a newline; the line of the example is written as the specification
  says; and what the driver writes for a round is its filtered lines, each tagged so.
\<close>

theorem written_line_tagging:
  "format_line_bytes line rd
     = server rd @ '' '' @ str_int (roundID rd) @ '' | '' @ line @ [CHR 0x0A]
   \<and> format_line_bytes ''Foo happened'' (ex_round ''Box'' 42 ts flag)
       = ''Box 42 | Foo happened'' @ [CHR 0x0A]
   \<and> snd (write_rounds w self h [(a, Some (l # ls))])
       = concat (map (\<lambda>line. server (h a) @ '' '' @ str_int (roundID (h a)) @ '' | ''
                                @ line @ [CHR 0x0A])
                     (filter_lines w self (l # ls)))
   \<and> decimal_value (str_nat n) = n"
proof (intro conjI)
  show "format_line_bytes ''Foo happened'' (ex_round ''Box'' 42 ts flag)
       = ''Box 42 | Foo happened'' @ [CHR 0x0A]"
  proof -
    have "str_int 42 = ''42''" by code_simp
    then show ?thesis by (simp add: format_line_bytes_def ex_round_def)
  qed
next
  show "snd (write_rounds w self h [(a, Some (l # ls))])
       = concat (map (\<lambda>line. server (h a) @ '' '' @ str_int (roundID (h a)) @ '' | ''
                                @ line @ [CHR 0x0A])
                     (filter_lines w self (l # ls)))"
    by (simp add: format_line_bytes_def)
qed (simp_all add: format_line_bytes_def str_nat_decimal)

theorem written_line_tagging_witness:
  "snd (write_rounds ex_world (ex_self [0]) ex_heap [(0, Some [''Foo happened'', ''Bar''])])
     = ''Bagil 42 | Foo happened'' @ [CHR 0x0A]"
proof -
  have "filter_lines ex_world (ex_self [0]) [''Foo happened'', ''Bar''] = [''Foo happened'']"
    and "server (ex_heap 0) = ''Bagil''" and "str_int (roundID (ex_heap 0)) = ''42''"
    by code_simp+
  with written_line_tagging [of _ _ _ _ ex_world "ex_self [0]" ex_heap 0 "''Foo happened''" "[''Bar'']"]
  show ?thesis by simp
qed

section \<open>The links\<close>

lemma log_link_instant:
  "log_link w self (rnd\<lparr>timestamp := Instant t\<rparr>)
     = Inr ((if tgforums_cookie self \<noteq> [] then GAME_TXT_ADMIN_URL w else GAME_TXT_URL w)
              (replace ''bagil'' ''basil'' (str_lower w (server rnd)))
              (str_nat (year t)) (format_02d (month t)) (format_02d (day t)) (roundID rnd))"
  by (simp add: log_link_def)

lemma log_link_text: "log_link w self (rnd\<lparr>timestamp := Text s\<rparr>) = Inl AttributeError"
  by (simp add: log_link_def)

lemma log_link_of_instant:
  "is_Instant (timestamp rnd) \<Longrightarrow> \<exists>link. log_link w self rnd = Inr link"
  by (cases "timestamp rnd") (simp_all add: log_link_def)

lemma log_link_of_text:
  "\<not> is_Instant (timestamp rnd) \<Longrightarrow> log_link w self rnd = Inl AttributeError"
  by (cases "timestamp rnd") (simp_all add: log_link_def)

text \<open>The generator yields the links of the rounds up to the first one whose timestamp
  is text, and raises \<open>AttributeError\<close> there.\<close>

lemma links_of_leading_instants:
  "snd (links_of w self h rs)
     = (if list_all (\<lambda>r. is_Instant (timestamp (h r))) rs then None else Some AttributeError)
   \<and> map Inr (fst (links_of w self h rs))
       = map (\<lambda>r. log_link w self (h r)) (takeWhile (\<lambda>r. is_Instant (timestamp (h r))) rs)"
proof (induction rs)
  case Nil
  show ?case by simp
next
  case (Cons r rs)
  show ?case
  proof (cases "is_Instant (timestamp (h r))")
    case True
    then obtain link where "log_link w self (h r) = Inr link"
      using log_link_of_instant [of "h r" w self] by blast
    with True Cons show ?thesis by (simp add: case_prod_unfold)
  next
    case False
    then have "log_link w self (h r) = Inl AttributeError"
      by (rule log_link_of_text)
    with False show ?thesis by simp
  qed
qed

text \<open>
  C9, as the code has it.  \<open>get_log_links\<close> yields one link for each of the leading
  rounds whose timestamps are instants, in order, and raises \<open>AttributeError\<close> at the
  first round whose timestamp is still text; over rounds that all have instants it
  ends without an exception, with one link for every round.  The link of a round is
  the admin template if the cookie is not empty and the plain template otherwise,
  formatted with the server put through \<open>str.lower\<close> and then \<open>bagil\<close> replaced by
  \<open>basil\<close>, the year, the month and the day in two digits, and the round id; the
  server \<open>Bagil\<close> is formatted as \<open>basil\<close>.
\<close>

theorem get_log_links_of_instants:
  assumes "rounds self = Some rs"
  shows "snd (get_log_links w self h)
           = (if list_all (\<lambda>r. is_Instant (timestamp (h r))) rs then None
              else Some AttributeError)
       \<and> map Inr (fst (get_log_links w self h))
           = map (\<lambda>r. log_link w self (h r))
               (takeWhile (\<lambda>r. is_Instant (timestamp (h r))) rs)
       \<and> (list_all (\<lambda>r. is_Instant (timestamp (h r))) rs \<longrightarrow>
            length (fst (get_log_links w self h)) = length rs)
       \<and> log_link w self (rnd\<lparr>timestamp := Instant t\<rparr>)
           = Inr ((if tgforums_cookie self \<noteq> [] then GAME_TXT_ADMIN_URL w else GAME_TXT_URL w)
                    (replace ''bagil'' ''basil'' (str_lower w (server rnd)))
                    (str_nat (year t)) (format_02d (month t)) (format_02d (day t))
                    (roundID rnd))
       \<and> log_link w self (rnd\<lparr>timestamp := Text s\<rparr>) = Inl AttributeError
       \<and> replace ''bagil'' ''basil'' (str_lower ex_world ''Bagil'') = ''basil''"
proof -
  have l: "snd (links_of w self h rs)
     = (if list_all (\<lambda>r. is_Instant (timestamp (h r))) rs then None else Some AttributeError)"
    and m: "map Inr (fst (links_of w self h rs))
       = map (\<lambda>r. log_link w self (h r)) (takeWhile (\<lambda>r. is_Instant (timestamp (h r))) rs)"
    using links_of_leading_instants [of w self h rs] by blast+
  have n: "length (fst (links_of w self h rs)) = length rs"
    if "list_all (\<lambda>r. is_Instant (timestamp (h r))) rs"
  proof -
    from that have "takeWhile (\<lambda>r. is_Instant (timestamp (h r))) rs = rs"
      by (simp add: list_all_iff)
    with m have "length (map (Inr :: string \<Rightarrow> exn + string) (fst (links_of w self h rs)))
               = length (map (\<lambda>r. log_link w self (h r)) rs)"
      by simp
    then show ?thesis by simp
  qed
  have b: "replace ''bagil'' ''basil'' (str_lower ex_world ''Bagil'') = ''basil''"
    by code_simp
  from l m n b assms show ?thesis
    by (simp add: get_log_links_def log_link_instant log_link_text)
qed

text \<open>The rounds as a run of \<open>get_logs_async\<close> leaves them, and a second downloader with
  a cookie.\<close>

theorem get_log_links_of_instants_witness:
  "get_log_links ex_world (ex_self [0, 1])
      (rounds_after (get_logs_async ex_world (ex_self [0, 1]) ex_heap [0, 1] []))
     = ([''http://logs/parsed/basil/2023/01/02/round-42'',
         ''http://logs/parsed/sybil/2023/11/12/round-7''], None)"
proof -
  let ?h = "rounds_after (get_logs_async ex_world (ex_self [0, 1]) ex_heap [0, 1] [])"
  have r: "rounds (ex_self [0, 1]) = Some [0, 1]"
    by (simp add: ex_self_def)
  have i: "list_all (\<lambda>r. is_Instant (timestamp (?h r))) [0, 1]"
    by code_simp
  then have tw: "takeWhile (\<lambda>r. is_Instant (timestamp (?h r))) [0, 1] = [0, 1]"
    by (simp add: list_all_iff)
  have "map (\<lambda>r. log_link ex_world (ex_self [0, 1]) (?h r)) [0, 1]
          = [Inr ''http://logs/parsed/basil/2023/01/02/round-42'',
             Inr ''http://logs/parsed/sybil/2023/11/12/round-7'']"
    by code_simp
  with i tw get_log_links_of_instants [OF r, of ex_world ?h]
  have "snd (get_log_links ex_world (ex_self [0, 1]) ?h) = None"
    and "map Inr (fst (get_log_links ex_world (ex_self [0, 1]) ?h))
          = [Inr ''http://logs/parsed/basil/2023/01/02/round-42'' :: exn + string,
             Inr ''http://logs/parsed/sybil/2023/11/12/round-7'']"
    by simp_all
  then show ?thesis
    by (cases "get_log_links ex_world (ex_self [0, 1]) ?h") (auto simp: map_eq_Cons_conv)
qed

text \<open>
  C9 as the specification states it fails: over a round as it arrives, with its
  timestamp still text, \<open>get_log_links\<close> yields no link and raises \<open>AttributeError\<close>.
\<close>

theorem get_log_links_text_counterexample:
  "get_log_links ex_world (ex_self [0]) ex_heap = ([], Some AttributeError)"
  by code_simp

section \<open>A second run\<close>

lemma fetch_start_rejects_own: "rejected w (timestamp (fst (fetch_start w self h a) a))"
  by (simp add: fetch_start_def Let_def split: timestamp_value.splits option.splits)

lemma fetch_start_keeps_rejected:
  "rejected w (timestamp (h r)) \<Longrightarrow> rejected w (timestamp (fst (fetch_start w self h a) r))"
  by (cases "a = r")
     (simp_all add: fetch_start_def Let_def split: timestamp_value.splits option.splits)

lemma start_all_keeps_rejected:
  "rejected w (timestamp (h r)) \<Longrightarrow> rejected w (timestamp (fst (start_all w self h rs) r))"
  by (induction rs arbitrary: h) (simp_all add: case_prod_unfold fetch_start_keeps_rejected)

lemma start_all_rejects_head:
  "rejected w (timestamp (fst (start_all w self h (a # rs)) a))"
  by (simp add: case_prod_unfold start_all_keeps_rejected fetch_start_rejects_own)

lemma fetch_start_keeps_text:
  "timestamp (fst (fetch_start w self h a) r) = Text s \<Longrightarrow> timestamp (h r) = Text s"
  by (cases "a = r")
     (auto simp: fetch_start_def Let_def split: timestamp_value.splits option.splits)

lemma start_all_keeps_text:
  "timestamp (fst (start_all w self h rs) r) = Text s \<Longrightarrow> timestamp (h r) = Text s"
proof (induction rs arbitrary: h)
  case Nil
  then show ?case by simp
next
  case (Cons a rs)
  then have "timestamp (fst (fetch_start w self h a) r) = Text s"
    by (simp add: case_prod_unfold)
  then show ?case by (rule fetch_start_keeps_text)
qed

lemma get_logs_async_rejected_head:
  assumes "rejected w (timestamp (h a))"
  shows "yielded (get_logs_async w self h (a # rs) sched) = []
       \<and> raised (get_logs_async w self h (a # rs) sched)
           = Some (if is_Instant (timestamp (h a)) then TypeError else ValueError)"
proof (cases "timestamp (h a)")
  case (Text s)
  with assms have "fetch_start w self h a = (h, Done (Raised ValueError))"
    by (simp add: fetch_start_def)
  with Text show ?thesis
    by (simp add: yielded_get_logs_async raised_get_logs_async case_prod_unfold)
next
  case (Instant t)
  then have "fetch_start w self h a = (h, Done (Raised TypeError))"
    by (simp add: fetch_start_def)
  with Instant show ?thesis
    by (simp add: yielded_get_logs_async raised_get_logs_async case_prod_unfold)
qed

lemma first_run_text_raises:
  assumes "timestamp (rounds_after (get_logs_async w self h (a # rs) sched) a) = Text s"
    and "rejected w (Text s)"
  shows "raised (get_logs_async w self h (a # rs) sched) \<noteq> None"
proof -
  from assms(1) have "timestamp (h a) = Text s"
    unfolding rounds_after_get_logs_async by (rule start_all_keeps_text)
  then have "timestamp (h ((a # rs) ! 0)) = Text s"
    by simp
  moreover from assms(2) have "isoparse w s = None"
    by simp
  moreover have "0 < length (a # rs)"
    by simp
  ultimately show ?thesis
    using generator_stops_at_unparseable [of 0 "a # rs" h s w self sched] by blast
qed

lemma process_and_write_any_schedule:
  "process_and_write w self h fs path sched = process_and_write w self h fs path sched'"
  unfolding process_and_write_def get_logs_async_any_schedule [of _ _ _ _ sched sched'] ..

text \<open>
  C4, as the code has it.  A run does not depend on the order in which the fetches
  complete.  But on a downloader with rounds a second run in succession never
  succeeds: the first run has left the first round with a timestamp on which
  \<open>isoparse\<close> raises (\<open>TypeError\<close> for the \<open>datetime\<close> that a successful first run stored),
  so the second run raises, prints nothing, and leaves the output file empty.
\<close>

theorem second_run_fails:
  assumes "rounds self = Some (a # rs)"
  shows "(failure (run_again w (process_and_write w self h fs path sched) path sched') = Some TypeError
          \<or> failure (run_again w (process_and_write w self h fs path sched) path sched') = Some ValueError)
       \<and> (failure (process_and_write w self h fs path sched) = None \<longrightarrow>
            failure (run_again w (process_and_write w self h fs path sched) path sched') = Some TypeError)
       \<and> files_after (run_again w (process_and_write w self h fs path sched) path sched')
            (chosen_path self path) = Some []
       \<and> printed (run_again w (process_and_write w self h fs path sched) path sched') = []
       \<and> process_and_write w self h fs path sched = process_and_write w self h fs path []"
proof -
  let ?g = "get_logs_async w self h (a # rs) sched"
  let ?h1 = "rounds_after ?g"
  let ?r1 = "process_and_write w self h fs path sched"
  let ?g2 = "get_logs_async w self ?h1 (a # rs) sched'"
  have r1: "self_after ?r1 = self" "heap_after ?r1 = ?h1" "failure ?r1 = raised ?g"
    by (simp_all add: process_and_write_rounds [OF assms])
  have rej: "rejected w (timestamp (?h1 a))"
    unfolding rounds_after_get_logs_async by (rule start_all_rejects_head)
  then have g2: "yielded ?g2 = []"
    "raised ?g2 = Some (if is_Instant (timestamp (?h1 a)) then TypeError else ValueError)"
    using get_logs_async_rejected_head [of w ?h1 a self rs sched'] by simp_all
  have r2: "run_again w ?r1 path sched' = process_and_write w self ?h1 (files_after ?r1) path sched'"
    by (simp add: run_again_def r1)
  have e2: "run_again w ?r1 path sched' =
      \<lparr>self_after = self, heap_after = rounds_after ?g2,
       files_after = (files_after ?r1)(chosen_path self path \<mapsto>
         snd (write_rounds w self (rounds_after ?g2) (yielded ?g2))),
       printed = fst (write_rounds w self (rounds_after ?g2) (yielded ?g2)),
       failure = raised ?g2\<rparr>"
    unfolding r2 by (rule process_and_write_rounds [OF assms])
  have f2: "failure (run_again w ?r1 path sched') = raised ?g2"
    and p2: "printed (run_again w ?r1 path sched') = []"
    and w2: "files_after (run_again w ?r1 path sched') (chosen_path self path) = Some []"
    by (simp_all add: e2 g2(1))
  have ok: "failure (run_again w ?r1 path sched') = Some TypeError" if "failure ?r1 = None"
  proof (cases "timestamp (?h1 a)")
    case (Text s)
    with rej have "rejected w (Text s)" by simp
    with Text have "raised ?g \<noteq> None" by (rule first_run_text_raises)
    with that r1(3) show ?thesis by simp
  next
    case (Instant t)
    then show ?thesis by (simp add: f2 g2(2))
  qed
  have "failure (run_again w ?r1 path sched') = Some TypeError
        \<or> failure (run_again w ?r1 path sched') = Some ValueError"
    by (simp add: f2 g2(2))
  with ok p2 w2 process_and_write_any_schedule [of w self h fs path sched "[]"]
  show ?thesis by blast
qed

theorem second_run_fails_witness:
  "failure (process_and_write ex_world (ex_self [0, 1]) ex_heap Map.empty None [1, 0]) = None
   \<and> failure (run_again ex_world
        (process_and_write ex_world (ex_self [0, 1]) ex_heap Map.empty None [1, 0]) None [])
       = Some TypeError
   \<and> files_after (run_again ex_world
        (process_and_write ex_world (ex_self [0, 1]) ex_heap Map.empty None [1, 0]) None [])
        ''logs.log'' = Some []"
proof -
  have r: "rounds (ex_self [0, 1]) = Some (0 # [1])"
    by (simp add: ex_self_def)
  have f: "failure (process_and_write ex_world (ex_self [0, 1]) ex_heap Map.empty None [1, 0]) = None"
    by code_simp
  have p: "chosen_path (ex_self [0, 1]) None = ''logs.log''"
    by (simp add: chosen_path_def ex_self_def)
  note t = second_run_fails [OF r, of ex_world ex_heap Map.empty None "[1, 0]" "[]"]
  from t f have "failure (run_again ex_world
        (process_and_write ex_world (ex_self [0, 1]) ex_heap Map.empty None [1, 0]) None [])
       = Some TypeError"
    by blast
  moreover from t have "files_after (run_again ex_world
        (process_and_write ex_world (ex_self [0, 1]) ex_heap Map.empty None [1, 0]) None [])
        (chosen_path (ex_self [0, 1]) None) = Some []"
    by blast
  ultimately show ?thesis
    using f unfolding p by blast
qed

text \<open>
  C4 as the specification states it fails: the first run over round 0 writes its line
  and succeeds; the second run on what it left raises \<open>TypeError\<close>, and the output file
  is empty after it.
\<close>

theorem second_run_counterexample:
  "files_after (process_and_write ex_world (ex_self [0]) ex_heap Map.empty None []) ''logs.log''
     = Some (''Bagil 42 | Foo happened'' @ [CHR 0x0A])
   \<and> failure (process_and_write ex_world (ex_self [0]) ex_heap Map.empty None []) = None
   \<and> files_after (run_again ex_world
        (process_and_write ex_world (ex_self [0]) ex_heap Map.empty None []) None [])
        ''logs.log'' = Some []
   \<and> failure (run_again ex_world
        (process_and_write ex_world (ex_self [0]) ex_heap Map.empty None []) None [])
       = Some TypeError"
  by code_simp

end
